theory Spec2Isabelle
  imports Main
begin

section \<open>Cell values and Python primitives\<close>

text \<open>
  A spreadsheet cell, as the reader hands it to the program, is \<open>None\<close> (an empty cell),
  a boolean, an integer or a text. Floating-point and date cells are outside this model:
  numeric cells are integers here. Texts are ASCII character lists.
\<close>

datatype pyval = PNone | PBool bool | PInt int | PStr string

datatype py_error = IndexError | TypeError

text \<open>Python truthiness: \<open>if v\<close>, \<open>not v\<close>, \<open>v or d\<close>.\<close>

fun truthy :: "pyval \<Rightarrow> bool" where
  "truthy PNone = False"
| "truthy (PBool b) = b"
| "truthy (PInt i) = (i \<noteq> 0)"
| "truthy (PStr s) = (s \<noteq> [])"

definition py_or :: "pyval \<Rightarrow> pyval \<Rightarrow> pyval" where
  "py_or a b = (if truthy a then a else b)"

text \<open>\<open>str(v)\<close>; an f-string field \<open>{v}\<close> renders the same text for these values.\<close>

definition digit_char :: "nat \<Rightarrow> char" where
  "digit_char n = ''0123456789'' ! n"

fun digits :: "nat \<Rightarrow> string" where
  "digits n = (if n < 10 then [digit_char n] else digits (n div 10) @ [digit_char (n mod 10)])"

declare digits.simps [simp del]

definition str_int :: "int \<Rightarrow> string" where
  "str_int i = (if i < 0 then CHR ''-'' # digits (nat (- i)) else digits (nat i))"

fun py_str :: "pyval \<Rightarrow> string" where
  "py_str PNone = ''None''"
| "py_str (PBool b) = (if b then ''True'' else ''False'')"
| "py_str (PInt i) = str_int i"
| "py_str (PStr s) = s"

text \<open>\<open>v != 0\<close>: a boolean compares as the integer it is; a text or \<open>None\<close> never equals 0.\<close>

fun ne_zero :: "pyval \<Rightarrow> bool" where
  "ne_zero PNone = True"
| "ne_zero (PBool b) = b"
| "ne_zero (PInt i) = (i \<noteq> 0)"
| "ne_zero (PStr s) = True"

text \<open>\<open>a + b\<close>: integers (booleans counting as 0 and 1) add, texts concatenate, every
  other pairing raises \<open>TypeError\<close>.\<close>

fun as_int :: "pyval \<Rightarrow> int option" where
  "as_int (PInt i) = Some i"
| "as_int (PBool b) = Some (if b then 1 else 0)"
| "as_int PNone = None"
| "as_int (PStr s) = None"

fun py_add :: "pyval \<Rightarrow> pyval \<Rightarrow> py_error + pyval" where
  "py_add (PStr s) (PStr t) = Inr (PStr (s @ t))"
| "py_add a b =
     (case (as_int a, as_int b) of
        (Some i, Some j) \<Rightarrow> Inr (PInt (i + j))
      | _ \<Rightarrow> Inl TypeError)"

subsection \<open>Text operations\<close>

text \<open>The ASCII characters \<open>str.strip()\<close> removes: tab, line feed, vertical tab, form feed,
  carriage return, the four separators 0x1C to 0x1F, and the space.\<close>

definition whitespace :: "char list" where
  "whitespace = [CHR 0x09, CHR 0x0A, CHR 0x0B, CHR 0x0C, CHR 0x0D,
                 CHR 0x1C, CHR 0x1D, CHR 0x1E, CHR 0x1F, CHR 0x20]"

definition py_isspace :: "char \<Rightarrow> bool" where
  "py_isspace c = (c \<in> set whitespace)"

definition strip :: "string \<Rightarrow> string" where
  "strip s = rev (dropWhile py_isspace (rev (dropWhile py_isspace s)))"

text \<open>\<open>str.upper()\<close> on ASCII text: the letters a to z move to A to Z.\<close>

definition upper_char :: "char \<Rightarrow> char" where
  "upper_char c =
     (case map_of (zip ''abcdefghijklmnopqrstuvwxyz'' ''ABCDEFGHIJKLMNOPQRSTUVWXYZ'') c of
        None \<Rightarrow> c
      | Some u \<Rightarrow> u)"

definition upper :: "string \<Rightarrow> string" where
  "upper s = map upper_char s"

text \<open>\<open>p in s\<close> on texts: \<open>p\<close> occurs in \<open>s\<close> as a contiguous run.\<close>

fun starts_with :: "string \<Rightarrow> string \<Rightarrow> bool" where
  "starts_with [] s = True"
| "starts_with (p # ps) [] = False"
| "starts_with (p # ps) (c # cs) = (p = c \<and> starts_with ps cs)"

fun contains :: "string \<Rightarrow> string \<Rightarrow> bool" where
  "contains p [] = (p = [])"
| "contains p (c # cs) = (starts_with p (c # cs) \<or> contains p cs)"

text \<open>\<open>s.split(sep)\<close> for a one-character separator: never an empty list.\<close>

fun split_on :: "char \<Rightarrow> string \<Rightarrow> string list" where
  "split_on sep [] = [[]]"
| "split_on sep (c # cs) =
     (if c = sep then [] # split_on sep cs
      else (case split_on sep cs of
              [] \<Rightarrow> [[c]]
            | seg # segs \<Rightarrow> (c # seg) # segs))"

text \<open>\<open>sep.join(parts)\<close>.\<close>

fun join :: "string \<Rightarrow> string list \<Rightarrow> string" where
  "join sep [] = []"
| "join sep [p] = p"
| "join sep (p # q # ps) = p @ sep @ join sep (q # ps)"

subsection \<open>Dictionaries\<close>

text \<open>A record (a \<open>dict\<close> from field name to cell value) is an association list with
  distinct keys; \<open>d.get(k)\<close> gives \<open>None\<close> for a missing key, \<open>d.get(k, dflt)\<close> the
  default. An empty dictionary is falsy.\<close>

type_synonym row_record = "(string \<times> pyval) list"

definition dict_get :: "row_record \<Rightarrow> string \<Rightarrow> pyval" where
  "dict_get d k = (case map_of d k of None \<Rightarrow> PNone | Some v \<Rightarrow> v)"

definition dict_get_default :: "row_record \<Rightarrow> string \<Rightarrow> pyval \<Rightarrow> pyval" where
  "dict_get_default d k dflt = (case map_of d k of None \<Rightarrow> dflt | Some v \<Rightarrow> v)"

section \<open>parser.py\<close>

text \<open>\<open>_find_column\<close>: the outer loop runs over the header cells with their index, the
  inner loop over the phrases; the first cell holding any phrase is returned.\<close>

fun find_column_from :: "nat \<Rightarrow> string list \<Rightarrow> string list \<Rightarrow> nat option" where
  "find_column_from i [] target_phrases = None"
| "find_column_from i (h # hs) target_phrases =
     (if list_ex (\<lambda>phrase. contains phrase (upper h)) target_phrases then Some i
      else find_column_from (Suc i) hs target_phrases)"

definition find_column :: "string list \<Rightarrow> string list \<Rightarrow> nat option" where
  "find_column header target_phrases = find_column_from 0 header target_phrases"

text \<open>The header row: \<open>[str(h).strip() if h else "" for h in rows[0]]\<close>.\<close>

definition header_of :: "pyval list \<Rightarrow> string list" where
  "header_of row = map (\<lambda>h. if truthy h then strip (py_str h) else []) row"

text \<open>The field tables of the two parsers, in the order of the source.\<close>

definition da_fields :: "(string \<times> string list) list" where
  "da_fields =
    [(''designation'', [''DRAINAGE AREA DESIGNATION'']),
     (''outflow_structure'', [''OUTFLOW STRUCTURE'']),
     (''area_acres'', [''DRAINAGE AREA (ACRE'', ''DRAINAGE AREA(ACRE'']),
     (''tc_min'', [''TIME OF CONCENTRATION'']),
     (''runoff_coeff'', [''RUNOFF COEFFICIENT'']),
     (''intensity'', [''CATCHMENT INTENSITY'', ''INTENSITY'']),
     (''flow_cfs'', [''CATCHMENT RATIONAL FLOW'', ''RATIONAL FLOW''])]"

definition inlet_fields :: "(string \<times> string list) list" where
  "inlet_fields =
    [(''structure_no'', [''STRUCTURE NO'']),
     (''alignment'', [''ALIGNMENT'']),
     (''station'', [''STATION'']),
     (''offset'', [''OFFSET'']),
     (''structure_type'', [''STRUCTURE TYPE'']),
     (''description'', [''DESCRIPTION'']),
     (''elevation_rim'', [''ELEVATION (RIM)'', ''ELEVATION'']),
     (''flow_captured'', [''FLOW (CAPTURED)'', ''CAPTURED'']),
     (''flow_bypassed_rational'', [''BYPASSED RATIONAL'']),
     (''flow_total_bypassed'', [''TOTAL BYPASSED'']),
     (''capture_efficiency'', [''CAPTURE EFFICIENCY'']),
     (''max_spread'', [''SPREAD'']),
     (''hgl_out'', [''HYDRAULIC GRADE'']),
     (''egl_out'', [''ENERGY GRADE'']),
     (''bypass_target'', [''BYPASS TARGET''])]"

text \<open>\<open>col_map\<close>: every field with the column found for it, the fields without a column
  removed.\<close>

definition col_map_of :: "string list \<Rightarrow> (string \<times> string list) list \<Rightarrow> (string \<times> nat) list" where
  "col_map_of header fields =
     [(k, i). (k, Some i) \<leftarrow> map (\<lambda>(k, phrases). (k, find_column header phrases)) fields]"

text \<open>One record: each mapped field read from its column, \<open>None\<close> past the row's end.\<close>

definition read_record :: "(string \<times> nat) list \<Rightarrow> pyval list \<Rightarrow> row_record" where
  "read_record col_map row =
     map (\<lambda>(key, col_idx). (key, if col_idx < length row then row ! col_idx else PNone)) col_map"

text \<open>The loop over \<open>rows[1:]\<close>. \<open>row[0]\<close> raises \<open>IndexError\<close> on a row with no cell;
  a row whose first cell is \<open>None\<close> is skipped.\<close>

fun read_rows :: "(string \<times> nat) list \<Rightarrow> pyval list list \<Rightarrow> py_error + row_record list" where
  "read_rows col_map [] = Inr []"
| "read_rows col_map (row # rows) =
     (case row of
        [] \<Rightarrow> Inl IndexError
      | c # cs \<Rightarrow>
          if c = PNone then read_rows col_map rows
          else (case read_rows col_map rows of
                  Inl e \<Rightarrow> Inl e
                | Inr data \<Rightarrow> Inr (read_record col_map row # data)))"

text \<open>The parsers, on the row list the workbook gives (opening the file is outside).\<close>

definition parse_da_summary :: "pyval list list \<Rightarrow> py_error + row_record list" where
  "parse_da_summary rows =
     (case rows of
        [] \<Rightarrow> Inr []
      | r0 # data_rows \<Rightarrow> read_rows (col_map_of (header_of r0) da_fields) data_rows)"

definition parse_inlets :: "pyval list list \<Rightarrow> py_error + row_record list" where
  "parse_inlets rows =
     (case rows of
        [] \<Rightarrow> Inr []
      | r0 # data_rows \<Rightarrow> read_rows (col_map_of (header_of r0) inlet_fields) data_rows)"

section \<open>Output sheets\<close>

text \<open>
  A worksheet is the partial map from (row, column), both counted from 1, to the value of
  the cell there; no entry means that no cell was created. Fonts, borders, alignments,
  widths, heights and merged ranges are presentation state that no cell value depends on
  and are left out.

  \<open>ws.cell(row, column, value)\<close> creates the cell when it is missing and assigns the
  value only when it is not \<open>None\<close>; \<open>_write_cell\<close> adds styling to that.
\<close>

type_synonym sheet = "nat \<times> nat \<Rightarrow> pyval option"

definition write_cell :: "sheet \<Rightarrow> nat \<Rightarrow> nat \<Rightarrow> pyval \<Rightarrow> sheet" where
  "write_cell ws row col v =
     (if v \<noteq> PNone then ws((row, col) \<mapsto> v)
      else (case ws (row, col) of
              None \<Rightarrow> ws((row, col) \<mapsto> PNone)
            | Some old \<Rightarrow> ws))"

text \<open>The \<open>_write_cell\<close> calls of one data row, in the order of the source.\<close>

definition write_cells :: "sheet \<Rightarrow> nat \<Rightarrow> (nat \<times> pyval) list \<Rightarrow> sheet" where
  "write_cells ws row cvs = fold (\<lambda>(col, v) w. write_cell w row col v) cvs ws"

text \<open>\<open>ws["X3"].value = text\<close> for each (column, text) of a header row.\<close>

definition set_values :: "sheet \<Rightarrow> nat \<Rightarrow> (nat \<times> string) list \<Rightarrow> sheet" where
  "set_values ws row cts = fold (\<lambda>(col, text) w. w((row, col) \<mapsto> PStr text)) cts ws"

section \<open>formatter\_inlet.py\<close>

definition backslash :: char where
  "backslash = CHR 0x5C"

definition dquote :: char where
  "dquote = CHR 0x22"

text \<open>\<open>COLUMNS\<close>: the column letters B to V as the numbers 2 to 22, with the header texts.\<close>

definition COLUMNS :: "(nat \<times> string) list" where
  "COLUMNS =
    [(2, ''STRUCTURE NUMBER''),
     (3, ''ALIGNMENT''),
     (4, ''STATION, OFFSET''),
     (5, ''INLET TYPE''),
     (6, ''DESCRIPTION''),
     (7, ''DESIGN YEAR''),
     (8, ''DRAINAGE AREA''),
     (9, ''AREA (ACRE)''),
     (10, ''C VALUE''),
     (11, ''Tc (MINUTES)''),
     (12, ''INTENSITY (IN/HR)''),
     (13, '' FLOW RATE INITIAL (Qi) (CFS)''),
     (14, ''GRADE '' @ [dquote] @ ''SL'' @ [dquote] @ '' (ft/ft)''),
     (15, ''CROSS SLOPE '' @ [dquote] @ ''Sx'' @ [dquote] @ '' (ft/ft)''),
     (16, ''CARRY OVER (CFS)''),
     (17, ''SUM Q AT INLETS (CFS)''),
     (18, ''DEPTH AT INLET (FT)''),
     (19, ''SPREAD AT INLET (FT)''),
     (20, ''BYPASS(CFS)''),
     (21, ''BYPASS TO INLET''),
     (22, ''COMMENTS'')]"

text \<open>\<open>_extract_inlet_type\<close>: \<open>parts[-1]\<close> is the last element of a list that
  \<open>split\<close> never leaves empty.\<close>

definition extract_inlet_type :: "pyval \<Rightarrow> string" where
  "extract_inlet_type description =
     (if \<not> truthy description then []
      else (let parts = split_on backslash (py_str description) in strip (last parts)))"

text \<open>\<open>_format_station_offset\<close>.\<close>

definition format_station_offset :: "pyval \<Rightarrow> pyval \<Rightarrow> string" where
  "format_station_offset station offset =
     (let parts = (if station \<noteq> PNone then [py_str station] else []);
          parts = (if offset \<noteq> PNone \<and> ne_zero offset
                   then parts @ [''Offset: '' @ py_str offset] else parts)
      in if parts \<noteq> [] then join '', '' parts else [])"

text \<open>The lookup \<open>da_by_outflow\<close>: a dictionary keyed by texts, filled in input order,
  a later record replacing an earlier one under the same key.\<close>

type_synonym da_index = "string \<Rightarrow> row_record option"

fun index_records :: "da_index \<Rightarrow> row_record list \<Rightarrow> da_index" where
  "index_records idx [] = idx"
| "index_records idx (da # das) =
     (let outflow = dict_get_default da ''outflow_structure'' (PStr [])
      in index_records
           (if truthy outflow then idx(strip (py_str outflow) \<mapsto> da) else idx) das)"

definition build_da_by_outflow :: "row_record list option \<Rightarrow> da_index" where
  "build_da_by_outflow da_data =
     (case da_data of
        None \<Rightarrow> Map.empty
      | Some das \<Rightarrow> if das \<noteq> [] then index_records Map.empty das else Map.empty)"

text \<open>\<open>da_by_outflow.get(struct_no)\<close>: every key is a text, so only a text finds one.\<close>

definition index_get :: "da_index \<Rightarrow> pyval \<Rightarrow> row_record option" where
  "index_get idx key = (case key of PStr s \<Rightarrow> idx s | _ \<Rightarrow> None)"

text \<open>\<open>da_record.get(k) if da_record else None\<close>.\<close>

definition linked :: "row_record option \<Rightarrow> string \<Rightarrow> pyval" where
  "linked da_record k =
     (case da_record of
        None \<Rightarrow> PNone
      | Some d \<Rightarrow> if d \<noteq> [] then dict_get d k else PNone)"

text \<open>Column Q: \<open>captured + bypassed if (captured or bypassed) else None\<close>.\<close>

definition sum_q :: "row_record \<Rightarrow> py_error + pyval" where
  "sum_q record =
     (let captured = py_or (dict_get record ''flow_captured'') (PInt 0);
          bypassed = py_or (dict_get record ''flow_total_bypassed'') (PInt 0)
      in if truthy captured \<or> truthy bypassed then py_add captured bypassed else Inr PNone)"

text \<open>The values of one inlet row, columns B to V, given the value of column Q.\<close>

definition inlet_row_values :: "da_index \<Rightarrow> row_record \<Rightarrow> pyval \<Rightarrow> (nat \<times> pyval) list" where
  "inlet_row_values da_by_outflow record q =
     (let struct_no = dict_get_default record ''structure_no'' (PStr []);
          da_record = index_get da_by_outflow struct_no
      in [(2, struct_no),
          (3, dict_get record ''alignment''),
          (4, PStr (format_station_offset (dict_get record ''station'') (dict_get record ''offset''))),
          (5, PStr (extract_inlet_type (dict_get record ''description''))),
          (6, dict_get record ''structure_type''),
          (7, PNone),
          (8, linked da_record ''designation''),
          (9, linked da_record ''area_acres''),
          (10, linked da_record ''runoff_coeff''),
          (11, linked da_record ''tc_min''),
          (12, linked da_record ''intensity''),
          (13, dict_get record ''flow_captured''),
          (14, PNone),
          (15, PNone),
          (16, dict_get record ''flow_total_bypassed''),
          (17, q),
          (18, PNone),
          (19, dict_get record ''max_spread''),
          (20, dict_get record ''flow_bypassed_rational''),
          (21, dict_get record ''bypass_target''),
          (22, PNone)])"

text \<open>One pass of the data loop: the addition for column Q may raise, which ends the run.\<close>

definition inlet_row :: "da_index \<Rightarrow> sheet \<Rightarrow> nat \<Rightarrow> row_record \<Rightarrow> py_error + sheet" where
  "inlet_row da_by_outflow ws row_idx record =
     (case sum_q record of
        Inl e \<Rightarrow> Inl e
      | Inr q \<Rightarrow> Inr (write_cells ws row_idx (inlet_row_values da_by_outflow record q)))"

fun inlet_rows :: "da_index \<Rightarrow> sheet \<Rightarrow> nat \<Rightarrow> row_record list \<Rightarrow> py_error + sheet" where
  "inlet_rows da_by_outflow ws row_idx [] = Inr ws"
| "inlet_rows da_by_outflow ws row_idx (record # records) =
     (case inlet_row da_by_outflow ws row_idx record of
        Inl e \<Rightarrow> Inl e
      | Inr ws' \<Rightarrow> inlet_rows da_by_outflow ws' (Suc row_idx) records)"

definition inlet_header :: sheet where
  "inlet_header =
     set_values (Map.empty((1, 2) \<mapsto> PStr ''DRAINAGE STRUCTURE DESIGN RECORD - INLETS'')) 2 COLUMNS"

definition create_inlet_sheet :: "row_record list \<Rightarrow> row_record list option \<Rightarrow> py_error + sheet" where
  "create_inlet_sheet inlet_data da_data =
     (let ws = inlet_header;
          da_by_outflow = build_da_by_outflow da_data;
          data_start = 5;
          ws = (if inlet_data \<noteq> [] then ws((data_start, 1) \<mapsto> PStr ''PROPOSED'') else ws)
      in inlet_rows da_by_outflow ws data_start inlet_data)"

section \<open>formatter\_da.py\<close>

definition da_header :: sheet where
  "da_header =
     (let ws = Map.empty((2, 1) \<mapsto> PStr ''DRAINAGE AREA SUMMARY'');
          ws = set_values ws 3
                 [(1, ''DRAINAGE AREA DESIGNATION''),
                  (2, ''DRAINAGE AREA (ACRE)''),
                  (3, ''TOTAL TC (MIN)''),
                  (4, ''RUNOFF COEFF. '' @ [dquote] @ ''C'' @ [dquote])];
          ws = ws((3, 5) \<mapsto> PStr ''RAINFALL INTENSITY (IN/HR)'');
          ws = ws((3, 9) \<mapsto> PStr ''PEAK FLOW (CFS)'');
          sub_headers = [''10 YEAR'', ''25 YEAR'', ''50 YEAR'', ''100 YEAR''];
          ws = set_values ws 4 (zip [5 ..< 9] sub_headers);
          ws = set_values ws 4 (zip [9 ..< 13] sub_headers)
      in ws)"

text \<open>The values of one drainage-area row, columns A to L.\<close>

definition da_row_values :: "row_record \<Rightarrow> (nat \<times> pyval) list" where
  "da_row_values record =
     [(1, dict_get record ''designation''),
      (2, dict_get record ''area_acres''),
      (3, dict_get record ''tc_min''),
      (4, dict_get record ''runoff_coeff''),
      (5, dict_get record ''intensity'')]
     @ map (\<lambda>col. (col, PNone)) [6 ..< 9]
     @ [(9, dict_get record ''flow_cfs'')]
     @ map (\<lambda>col. (col, PNone)) [10 ..< 13]"

fun da_rows :: "sheet \<Rightarrow> nat \<Rightarrow> row_record list \<Rightarrow> sheet" where
  "da_rows ws row_idx [] = ws"
| "da_rows ws row_idx (record # records) =
     da_rows (write_cells ws row_idx (da_row_values record)) (Suc row_idx) records"

definition create_da_summary_sheet :: "row_record list \<Rightarrow> sheet" where
  "create_da_summary_sheet da_data = da_rows da_header 5 da_data"

section \<open>Notions of the specification\<close>

text \<open>The specification's reading of the inlet type: the last segment of the path that is
  not empty (the empty text when every segment is empty).\<close>

definition spec_last_nonempty_segment :: "string \<Rightarrow> string" where
  "spec_last_nonempty_segment s =
     (let segs = filter (\<lambda>seg. seg \<noteq> []) (split_on backslash s)
      in if segs = [] then [] else last segs)"

text \<open>A flow operand as the specification adds it: the number, an absent one counting as 0.\<close>

fun absent_as_zero :: "pyval \<Rightarrow> int" where
  "absent_as_zero (PInt i) = i"
| "absent_as_zero v = 0"

fun number_or_absent :: "pyval \<Rightarrow> bool" where
  "number_or_absent PNone = True"
| "number_or_absent (PInt i) = True"
| "number_or_absent v = False"

text \<open>A worked example: one drainage area draining to inlet CI-1, its link field written
  with blanks around it, and two inlets, the second with a trailing blank in its number
  and with neither station nor description.\<close>

definition example_da_data :: "row_record list" where
  "example_da_data =
     [[(''designation'', PStr ''DA-2''), (''outflow_structure'', PStr '' CI-1 ''),
       (''area_acres'', PInt 19), (''tc_min'', PInt 10), (''runoff_coeff'', PInt 25),
       (''intensity'', PInt 9), (''flow_cfs'', PInt 5)]]"

definition example_inlet_data :: "row_record list" where
  "example_inlet_data =
     [[(''structure_no'', PStr ''CI-1''), (''station'', PStr ''10+50''), (''offset'', PInt 0),
       (''description'', PStr (''Inlets'' @ backslash # ''CI Des 2 STD'')),
       (''flow_captured'', PInt 4), (''flow_total_bypassed'', PInt 1)],
      [(''structure_no'', PStr ''CI-1 ''), (''offset'', PInt 5), (''flow_captured'', PInt 2)]]"

section \<open>The table reader\<close>

lemma read_rows_filter:
  "\<forall>row \<in> set rows. row \<noteq> [] \<Longrightarrow>
   read_rows col_map rows =
     Inr (map (read_record col_map) (filter (\<lambda>row. hd row \<noteq> PNone) rows))"
proof (induction rows)
  case Nil
  show ?case by simp
next
  case (Cons row rows)
  then obtain c cs where row: "row = c # cs" by (cases row) auto
  from Cons have IH: "read_rows col_map rows =
      Inr (map (read_record col_map) (filter (\<lambda>row. hd row \<noteq> PNone) rows))"
    by simp
  show ?case by (simp add: row IH)
qed

text \<open>A data row with no cell at all makes \<open>row[0]\<close> raise, whatever stands around it.\<close>

lemma read_rows_empty_row:
  "read_rows col_map (rows @ [] # rest) = Inl IndexError"
  by (induction rows) (auto split: list.splits sum.splits)

text \<open>
  C6 (row-presence sentinel), as amended. When every data row has at least one cell, each
  parser returns, for the rows after the header, exactly the rows whose first cell is not
  \<open>None\<close> (an empty cell is read as \<open>None\<close>; a first cell holding a text, even the
  empty text, keeps the row), one record per kept row, in input order; whether a row is
  kept depends on its first cell only. Nothing is said of an input with a cell-less row.
\<close>

theorem table_reader_row_sentinel:
  assumes "\<forall>row \<in> set data_rows. row \<noteq> []"
  shows "parse_da_summary (header # data_rows) =
           Inr (map (read_record (col_map_of (header_of header) da_fields))
                    (filter (\<lambda>row. hd row \<noteq> PNone) data_rows))
       \<and> parse_inlets (header # data_rows) =
           Inr (map (read_record (col_map_of (header_of header) inlet_fields))
                    (filter (\<lambda>row. hd row \<noteq> PNone) data_rows))"
  using assms by (simp add: parse_da_summary_def parse_inlets_def read_rows_filter)

theorem table_reader_row_sentinel_witness:
  "parse_inlets
     [[PStr ''Structure No'', PStr ''Station''],
      [PStr ''A1'', PInt 5],
      [PNone, PInt 7],
      [PStr ''A2'']]
   = Inr [[(''structure_no'', PStr ''A1''), (''station'', PInt 5)],
          [(''structure_no'', PStr ''A2''), (''station'', PNone)]]"
proof -
  have rows: "\<forall>row \<in> set [[PStr ''A1'', PInt 5], [PNone, PInt 7], [PStr ''A2'']]. row \<noteq> []"
    by simp
  have "parse_inlets
     [[PStr ''Structure No'', PStr ''Station''],
      [PStr ''A1'', PInt 5],
      [PNone, PInt 7],
      [PStr ''A2'']]
    = Inr (map (read_record
                 (col_map_of (header_of [PStr ''Structure No'', PStr ''Station'']) inlet_fields))
               (filter (\<lambda>row. hd row \<noteq> PNone)
                 [[PStr ''A1'', PInt 5], [PNone, PInt 7], [PStr ''A2'']]))"
    using table_reader_row_sentinel [OF rows] by (rule conjunct2)
  also have "\<dots> = Inr [[(''structure_no'', PStr ''A1''), (''station'', PInt 5)],
          [(''structure_no'', PStr ''A2''), (''station'', PNone)]]"
    by code_simp
  finally show ?thesis .
qed

text \<open>The claim as stated fails. A data row with no cell at all is not skipped: \<open>row[0]\<close>
  raises, although the same loop guards every mapped column with \<open>col_idx < len(row)\<close>,
  and the rows before it, whose first cells are filled, give no record either. A row whose
  first cell holds the empty text is kept, the test being \<open>is None\<close>.\<close>

theorem table_reader_row_sentinel_counterexample:
  "parse_inlets
     [[PStr ''Structure No'', PStr ''Station''],
      [PStr ''A1'', PInt 5],
      []] = Inl IndexError
   \<and> parse_da_summary
     [[PStr ''Drainage Area Designation'', PStr ''Outflow Structure''],
      [PStr ''DA-1'', PStr ''A1''],
      []] = Inl IndexError
   \<and> parse_inlets
     [[PStr ''Structure No'', PStr ''Station''],
      [PStr [], PInt 7]]
     = Inr [[(''structure_no'', PStr []), (''station'', PInt 7)]]"
  by code_simp

text \<open>
  C10 (empty-input tolerance). On a sheet with no row at all each parser returns the empty
  record list, and on a sheet with a header row only it returns the empty list too; neither
  raises.
\<close>

theorem parsers_empty_input:
  "parse_da_summary [] = Inr [] \<and> parse_inlets [] = Inr []
   \<and> parse_da_summary [header] = Inr [] \<and> parse_inlets [header] = Inr []"
  by (simp add: parse_da_summary_def parse_inlets_def)

section \<open>The header resolver\<close>

text \<open>What \<open>_find_column\<close> returns: the leftmost cell that holds any of the phrases.\<close>

lemma find_column_from_Some:
  "find_column_from k header phrases = Some i \<Longrightarrow>
     k \<le> i \<and> i - k < length header
     \<and> list_ex (\<lambda>phrase. contains phrase (upper (header ! (i - k)))) phrases
     \<and> (\<forall>j < i - k. \<not> list_ex (\<lambda>phrase. contains phrase (upper (header ! j))) phrases)"
proof (induction header arbitrary: k)
  case Nil
  then show ?case by simp
next
  case (Cons h hs)
  show ?case
  proof (cases "list_ex (\<lambda>phrase. contains phrase (upper h)) phrases")
    case True
    with Cons.prems show ?thesis by simp
  next
    case False
    with Cons.prems have r: "find_column_from (Suc k) hs phrases = Some i" by simp
    from Cons.IH [OF r] have ih: "Suc k \<le> i" "i - Suc k < length hs"
      "list_ex (\<lambda>phrase. contains phrase (upper (hs ! (i - Suc k)))) phrases"
      "\<forall>j < i - Suc k. \<not> list_ex (\<lambda>phrase. contains phrase (upper (hs ! j))) phrases"
      by auto
    from ih(1) have eq: "i - k = Suc (i - Suc k)" by simp
    show ?thesis using ih False unfolding eq
      by (auto simp: less_Suc_eq_0_disj)
  qed
qed

text \<open>
  C1 (phrase priority). The claim: when the first phrase of a field occurs in some header
  cell, the field gets a cell holding that phrase, never a cell that holds only a later
  phrase. The code scans cell by cell: for the field \<open>elevation_rim\<close>, with the phrases
  "ELEVATION (RIM)" and "ELEVATION", and a header whose invert-elevation column stands
  left of the rim-elevation column, it returns column 0, which holds only the second
  phrase, although column 1 holds the first.
\<close>

theorem find_column_first_cell_wins:
  "find_column (header_of [PStr ''Elevation (Invert) (ft)'', PStr ''Elevation (Rim) (ft)''])
       [''ELEVATION (RIM)'', ''ELEVATION''] = Some 0
   \<and> \<not> contains ''ELEVATION (RIM)'' (upper ''Elevation (Invert) (ft)'')
   \<and> contains ''ELEVATION (RIM)'' (upper ''Elevation (Rim) (ft)'')"
  by code_simp

section \<open>Texts: trimming and splitting\<close>

text \<open>A trimmed text neither starts nor ends with whitespace, so trimming it again
  changes nothing; a text of whitespace only trims to the empty text.\<close>

lemma strip_head: "strip s \<noteq> [] \<Longrightarrow> \<not> py_isspace (hd (strip s))"
proof -
  assume ne: "strip s \<noteq> []"
  define t where "t = dropWhile py_isspace s"
  define u where "u = dropWhile py_isspace (rev t)"
  have su: "strip s = rev u" by (simp add: strip_def t_def u_def)
  with ne have "u \<noteq> []" by simp
  have "rev t = takeWhile py_isspace (rev t) @ u" by (simp add: u_def)
  then have "t = rev u @ rev (takeWhile py_isspace (rev t))"
    by (metis rev_append rev_rev_ident)
  with \<open>u \<noteq> []\<close> have "hd (rev u) = hd t" "t \<noteq> []"
    by (metis hd_append2 rev_is_Nil_conv, metis Nil_is_append_conv rev_is_Nil_conv)
  moreover from \<open>t \<noteq> []\<close> have "\<not> py_isspace (hd t)"
    unfolding t_def by (rule hd_dropWhile)
  ultimately show ?thesis by (simp add: su)
qed

lemma strip_last: "strip s \<noteq> [] \<Longrightarrow> \<not> py_isspace (last (strip s))"
proof -
  assume ne: "strip s \<noteq> []"
  define u where "u = dropWhile py_isspace (rev (dropWhile py_isspace s))"
  have su: "strip s = rev u" by (simp add: strip_def u_def)
  with ne have "u \<noteq> []" by simp
  then have "\<not> py_isspace (hd u)" unfolding u_def by (rule hd_dropWhile)
  with \<open>u \<noteq> []\<close> show ?thesis by (simp add: su last_rev)
qed

lemma strip_fixed:
  assumes "s = [] \<or> (\<not> py_isspace (hd s) \<and> \<not> py_isspace (last s))"
  shows "strip s = s"
proof (cases "s = []")
  case True
  then show ?thesis by (simp add: strip_def)
next
  case False
  with assms have h: "\<not> py_isspace (hd s)" and l: "\<not> py_isspace (last s)" by auto
  from False h have 1: "dropWhile py_isspace s = s" by (simp add: dropWhile_eq_self_iff)
  from False l have 2: "dropWhile py_isspace (rev s) = rev s"
    by (simp add: dropWhile_eq_self_iff hd_rev)
  show ?thesis by (simp add: strip_def 1 2)
qed

lemma strip_idem: "strip (strip s) = strip s"
  by (rule strip_fixed) (use strip_head strip_last in blast)

lemma strip_whitespace_only: "\<forall>c \<in> set w. py_isspace c \<Longrightarrow> strip w = []"
proof -
  assume "\<forall>c \<in> set w. py_isspace c"
  then have d: "dropWhile py_isspace w = []" by simp
  show ?thesis unfolding strip_def d by simp
qed

text \<open>Splitting at a separator: the segments before it, then the segments after it.\<close>

lemma split_on_not_Nil: "split_on sep s \<noteq> []"
  by (induction s) (auto split: list.splits)

lemma split_on_no_sep: "sep \<notin> set s \<Longrightarrow> split_on sep s = [s]"
  by (induction s) auto

lemma split_on_append:
  "split_on sep (pre @ sep # t) = split_on sep pre @ split_on sep t"
proof (induction pre)
  case Nil
  show ?case by simp
next
  case (Cons a pre)
  obtain seg segs where pre: "split_on sep pre = seg # segs"
    using split_on_not_Nil [of sep pre] by (cases "split_on sep pre") auto
  show ?case by (simp add: Cons.IH pre)
qed

lemma last_split_on: "sep \<notin> set t \<Longrightarrow> last (split_on sep (pre @ sep # t)) = t"
  by (simp add: split_on_append split_on_not_Nil split_on_no_sep)

section \<open>The link index\<close>

lemma find_append_case:
  "List.find P (xs @ ys) = (case List.find P xs of None \<Rightarrow> List.find P ys | Some x \<Rightarrow> Some x)"
  by (induction xs) auto

text \<open>The index after the loop: under each key the last record, in input order, whose
  \<open>outflow_structure\<close> is truthy and trims to that key.\<close>

lemma index_records_find:
  "index_records idx das k =
     (case List.find (\<lambda>da. truthy (dict_get_default da ''outflow_structure'' (PStr []))
                          \<and> strip (py_str (dict_get_default da ''outflow_structure'' (PStr []))) = k)
                     (rev das) of
        None \<Rightarrow> idx k
      | Some da \<Rightarrow> Some da)"
proof (induction das arbitrary: idx)
  case Nil
  show ?case by simp
next
  case (Cons da das)
  show ?case
    by (simp add: Cons.IH find_append_case Let_def split: option.splits)
qed

text \<open>Every key of the index is a trimmed text, and every record in it has a field.\<close>

lemma index_keys_stripped:
  "build_da_by_outflow da_data k = Some da \<Longrightarrow> strip k = k \<and> da \<noteq> []"
proof (cases da_data)
  case None
  assume "build_da_by_outflow da_data k = Some da"
  with None show ?thesis by (simp add: build_da_by_outflow_def)
next
  case (Some das)
  assume "build_da_by_outflow da_data k = Some da"
  with Some have "index_records Map.empty das k = Some da"
    by (simp add: build_da_by_outflow_def split: if_splits)
  then have f: "List.find (\<lambda>da. truthy (dict_get_default da ''outflow_structure'' (PStr []))
                          \<and> strip (py_str (dict_get_default da ''outflow_structure'' (PStr []))) = k)
                     (rev das) = Some da"
    by (simp add: index_records_find split: option.splits)
  then have t: "truthy (dict_get_default da ''outflow_structure'' (PStr []))"
    and k: "strip (py_str (dict_get_default da ''outflow_structure'' (PStr []))) = k"
    by (auto simp: find_Some_iff)
  from k have "strip k = k" using strip_idem by blast
  moreover from t have "da \<noteq> []" by (auto simp: dict_get_default_def)
  ultimately show ?thesis by simp
qed

text \<open>
  C3 (link-index construction), as amended. For every list of drainage-area records and
  every key, the index holds under that key the last record, in input order, whose
  \<open>outflow_structure\<close> value is present and truthy (not \<open>None\<close>, not the empty text,
  not 0) and whose text, trimmed, is the key; it holds nothing under a key that no such
  record has. The presence test reads the value as it stands, before trimming.
\<close>

theorem link_index_last_writer:
  "build_da_by_outflow (Some das) k =
     List.find (\<lambda>da. truthy (dict_get_default da ''outflow_structure'' (PStr []))
                     \<and> strip (py_str (dict_get_default da ''outflow_structure'' (PStr []))) = k)
               (rev das)"
proof (cases "das = []")
  case True
  then show ?thesis by (simp add: build_da_by_outflow_def)
next
  case False
  then show ?thesis
    by (simp add: build_da_by_outflow_def index_records_find split: option.splits)
qed

text \<open>The claim as stated fails: a record whose \<open>outflow_structure\<close> is two spaces is
  empty after trimming, and the index holds it under the empty key.\<close>

theorem link_index_whitespace_counterexample:
  "strip (py_str (dict_get [(''designation'', PStr ''DA-1''), (''outflow_structure'', PStr ''  '')]
                     ''outflow_structure'')) = []
   \<and> build_da_by_outflow
        (Some [[(''designation'', PStr ''DA-1''), (''outflow_structure'', PStr ''  '')]]) []
      = Some [(''designation'', PStr ''DA-1''), (''outflow_structure'', PStr ''  '')]"
  by code_simp

text \<open>
  C9 (spurious empty-key link). A drainage-area record whose \<open>outflow_structure\<close> is a
  non-empty text of whitespace only, standing last in the input, is in the index under the
  empty key; an inlet record with no \<open>structure_no\<close> field looks up the default key, the
  empty text; so the lookup gives that record, and the inlet row shows its designation in
  column H.
\<close>

theorem spurious_empty_key_link:
  assumes "map_of da ''outflow_structure'' = Some (PStr w)"
      and "w \<noteq> []" and "\<forall>c \<in> set w. py_isspace c"
      and "map_of record ''structure_no'' = None"
  shows "build_da_by_outflow (Some (das @ [da])) [] = Some da
       \<and> dict_get_default record ''structure_no'' (PStr []) = PStr []
       \<and> index_get (build_da_by_outflow (Some (das @ [da])))
            (dict_get_default record ''structure_no'' (PStr [])) = Some da
       \<and> (8, dict_get da ''designation'')
            \<in> set (inlet_row_values (build_da_by_outflow (Some (das @ [da]))) record q)"
proof -
  from assms(1) have o: "dict_get_default da ''outflow_structure'' (PStr []) = PStr w"
    by (simp add: dict_get_default_def)
  from assms(3) have w: "strip w = []" by (rule strip_whitespace_only)
  have b: "build_da_by_outflow (Some (das @ [da])) [] = Some da"
    by (simp add: build_da_by_outflow_def index_records_find o w assms(2))
  from assms(4) have s: "dict_get_default record ''structure_no'' (PStr []) = PStr []"
    by (simp add: dict_get_default_def)
  have g: "index_get (build_da_by_outflow (Some (das @ [da]))) (PStr []) = Some da"
    using b by (simp add: index_get_def)
  from assms(1) have ne: "da \<noteq> []" by auto
  have "(8, dict_get da ''designation'')
          \<in> set (inlet_row_values (build_da_by_outflow (Some (das @ [da]))) record q)"
    unfolding inlet_row_values_def Let_def s g by (simp add: linked_def ne)
  with b s g show ?thesis by simp
qed

theorem spurious_empty_key_link_witness:
  "index_get
     (build_da_by_outflow
        (Some [[(''designation'', PStr ''DA-1''), (''outflow_structure'', PStr ''CI-1'')],
               [(''designation'', PStr ''DA-2''), (''outflow_structure'', PStr '' '')]]))
     (dict_get_default [(''station'', PInt 100)] ''structure_no'' (PStr []))
   = Some [(''designation'', PStr ''DA-2''), (''outflow_structure'', PStr '' '')]"
proof -
  have 1: "map_of [(''designation'', PStr ''DA-2''), (''outflow_structure'', PStr '' '')]
             ''outflow_structure'' = Some (PStr '' '')" by simp
  have 2: "'' '' \<noteq> []" by simp
  have 3: "\<forall>c \<in> set '' ''. py_isspace c" by (simp add: py_isspace_def whitespace_def)
  have 4: "map_of [(''station'', PInt 100)] ''structure_no'' = None" by simp
  have 5: "[[(''designation'', PStr ''DA-1''), (''outflow_structure'', PStr ''CI-1'')]]
            @ [[(''designation'', PStr ''DA-2''), (''outflow_structure'', PStr '' '')]]
         = [[(''designation'', PStr ''DA-1''), (''outflow_structure'', PStr ''CI-1'')],
            [(''designation'', PStr ''DA-2''), (''outflow_structure'', PStr '' '')]]" by simp
  from spurious_empty_key_link [OF 1 2 3 4,
      where das = "[[(''designation'', PStr ''DA-1''), (''outflow_structure'', PStr ''CI-1'')]]"
        and q = PNone]
  show ?thesis unfolding 5 by blast
qed

section \<open>Writing cells\<close>

text \<open>A write leaves every other cell alone, and a cell that did not exist holds the
  written value afterwards (\<open>None\<close> for a blank one).\<close>

lemma write_cell_other:
  "(r, c) \<noteq> (row, col) \<Longrightarrow> write_cell ws row col v (r, c) = ws (r, c)"
  by (auto simp: write_cell_def split: option.splits)

lemma write_cell_fresh:
  "ws (row, col) = None \<Longrightarrow> write_cell ws row col v (row, col) = Some v"
  by (simp add: write_cell_def)

text \<open>The writes of one row: cells of other rows and columns are kept; on fresh cells
  the row holds exactly the listed values.\<close>

lemma write_cells_other:
  "r \<noteq> row \<or> c \<notin> fst ` set cvs \<Longrightarrow> write_cells ws row cvs (r, c) = ws (r, c)"
proof (induction cvs arbitrary: ws)
  case Nil
  show ?case by (simp add: write_cells_def)
next
  case (Cons cv cvs)
  obtain col v where cv: "cv = (col, v)" by (cases cv)
  have step: "write_cells ws row (cv # cvs) = write_cells (write_cell ws row col v) row cvs"
    by (simp add: write_cells_def cv)
  from Cons.prems have "r \<noteq> row \<or> c \<notin> fst ` set cvs" and ne: "(r, c) \<noteq> (row, col)"
    by (auto simp: cv)
  then have "write_cells (write_cell ws row col v) row cvs (r, c) = write_cell ws row col v (r, c)"
    using Cons.IH by blast
  with ne show ?case by (simp add: step write_cell_other)
qed

lemma write_cells_fresh:
  "distinct (map fst cvs) \<Longrightarrow> ws (row, c) = None \<Longrightarrow>
   write_cells ws row cvs (row, c) = map_of cvs c"
proof (induction cvs arbitrary: ws)
  case Nil
  then show ?case by (simp add: write_cells_def)
next
  case (Cons cv cvs)
  obtain col v where cv: "cv = (col, v)" by (cases cv)
  have step: "write_cells ws row ((col, v) # cvs) = write_cells (write_cell ws row col v) row cvs"
    by (simp add: write_cells_def)
  from Cons.prems have d: "distinct (map fst cvs)" and nin: "col \<notin> fst ` set cvs"
    by (auto simp: cv)
  show ?case
  proof (cases "c = col")
    case True
    with nin have "write_cells (write_cell ws row col v) row cvs (row, c)
        = write_cell ws row col v (row, c)"
      by (simp add: write_cells_other)
    also have "\<dots> = Some v" using Cons.prems(2) True by (simp add: write_cell_fresh)
    finally show ?thesis by (simp add: step cv True)
  next
    case False
    then have "write_cell ws row col v (row, c) = None"
      using Cons.prems(2) by (simp add: write_cell_other)
    with d have "write_cells (write_cell ws row col v) row cvs (row, c) = map_of cvs c"
      by (rule Cons.IH)
    with False show ?thesis by (simp add: step cv)
  qed
qed

lemma set_values_other:
  "r \<noteq> row \<Longrightarrow> set_values ws row cts (r, c) = ws (r, c)"
proof (induction cts arbitrary: ws)
  case Nil
  show ?case by (simp add: set_values_def)
next
  case (Cons ct cts)
  obtain col t where ct: "ct = (col, t)" by (cases ct)
  have "set_values ws row (ct # cts) = set_values (ws((row, col) \<mapsto> PStr t)) row cts"
    by (simp add: set_values_def ct)
  with Cons show ?case by simp
qed

text \<open>Both header blocks end above row 5.\<close>

lemma da_header_data: "5 \<le> r \<Longrightarrow> da_header (r, c) = None"
  by (simp add: da_header_def Let_def set_values_other)

lemma inlet_header_data: "5 \<le> r \<Longrightarrow> inlet_header (r, c) = None"
  by (simp add: inlet_header_def set_values_other)

section \<open>The Drainage Area Summary sheet\<close>

lemma da_row_columns: "distinct (map fst (da_row_values record))"
  by (simp add: da_row_values_def)

lemma da_rows_before:
  "r < start \<Longrightarrow> da_rows ws start records (r, c) = ws (r, c)"
  by (induction records arbitrary: ws start) (simp_all add: write_cells_other)

lemma da_rows_after:
  "start + length records \<le> r \<Longrightarrow> da_rows ws start records (r, c) = ws (r, c)"
  by (induction records arbitrary: ws start) (simp_all add: write_cells_other)

lemma da_rows_row:
  "i < length records \<Longrightarrow> ws (start + i, c) = None \<Longrightarrow>
   da_rows ws start records (start + i, c) = map_of (da_row_values (records ! i)) c"
proof (induction records arbitrary: ws start i)
  case Nil
  then show ?case by simp
next
  case (Cons rcd rcds)
  show ?case
  proof (cases i)
    case 0
    have "da_rows ws start (rcd # rcds) (start, c)
        = write_cells ws start (da_row_values rcd) (start, c)"
      by (simp add: da_rows_before)
    also have "\<dots> = map_of (da_row_values rcd) c"
      using Cons.prems(2) 0 by (simp add: write_cells_fresh da_row_columns)
    finally show ?thesis by (simp add: 0)
  next
    case (Suc j)
    with Cons.prems have j: "j < length rcds" by simp
    have "write_cells ws start (da_row_values rcd) (Suc start + j, c) = ws (Suc start + j, c)"
      by (simp add: write_cells_other)
    with Cons.prems(2) Suc
    have "write_cells ws start (da_row_values rcd) (Suc start + j, c) = None" by simp
    with j have "da_rows (write_cells ws start (da_row_values rcd)) (Suc start) rcds (Suc start + j, c)
        = map_of (da_row_values (rcds ! j)) c"
      by (rule Cons.IH)
    then show ?thesis by (simp add: Suc)
  qed
qed

lemma da_sheet_row:
  "i < length da_data \<Longrightarrow>
   create_da_summary_sheet da_data (5 + i, c) = map_of (da_row_values (da_data ! i)) c"
  unfolding create_da_summary_sheet_def by (rule da_rows_row) (simp_all add: da_header_data)

text \<open>
  C8 (single-frequency placement). The sheet has one data row per record, in input order:
  row 5 + i is the row of record i. In it the record's intensity stands in column E (5)
  and its flow in column I (9), columns F to H (6 to 8) and J to L (10 to 12) are blank
  cells, columns A to D hold designation, area, Tc and runoff coefficient, and there is no
  cell outside columns A to L. Below the last record's row the sheet has no cell.
\<close>

theorem da_summary_single_frequency:
  "(i < length da_data \<longrightarrow>
      create_da_summary_sheet da_data (5 + i, 5) = Some (dict_get (da_data ! i) ''intensity'')
    \<and> create_da_summary_sheet da_data (5 + i, 9) = Some (dict_get (da_data ! i) ''flow_cfs'')
    \<and> (\<forall>c \<in> {6, 7, 8, 10, 11, 12}. create_da_summary_sheet da_data (5 + i, c) = Some PNone)
    \<and> create_da_summary_sheet da_data (5 + i, 1) = Some (dict_get (da_data ! i) ''designation'')
    \<and> create_da_summary_sheet da_data (5 + i, 2) = Some (dict_get (da_data ! i) ''area_acres'')
    \<and> create_da_summary_sheet da_data (5 + i, 3) = Some (dict_get (da_data ! i) ''tc_min'')
    \<and> create_da_summary_sheet da_data (5 + i, 4) = Some (dict_get (da_data ! i) ''runoff_coeff'')
    \<and> (c = 0 \<or> 12 < c \<longrightarrow> create_da_summary_sheet da_data (5 + i, c) = None))
   \<and> (5 + length da_data \<le> r \<longrightarrow> create_da_summary_sheet da_data (r, c) = None)"
proof (intro conjI impI)
  assume "5 + length da_data \<le> r"
  then show "create_da_summary_sheet da_data (r, c) = None"
    by (simp add: create_da_summary_sheet_def da_rows_after da_header_data)
qed (auto simp: da_sheet_row da_row_values_def)

theorem da_summary_single_frequency_witness:
  "create_da_summary_sheet
     [[(''designation'', PStr ''DA-1''), (''intensity'', PInt 9), (''flow_cfs'', PInt 5)],
      [(''designation'', PStr ''DA-2''), (''intensity'', PInt 7)]] (6, 5) = Some (PInt 7)
   \<and> create_da_summary_sheet
     [[(''designation'', PStr ''DA-1''), (''intensity'', PInt 9), (''flow_cfs'', PInt 5)],
      [(''designation'', PStr ''DA-2''), (''intensity'', PInt 7)]] (6, 9) = Some PNone
   \<and> create_da_summary_sheet
     [[(''designation'', PStr ''DA-1''), (''intensity'', PInt 9), (''flow_cfs'', PInt 5)],
      [(''designation'', PStr ''DA-2''), (''intensity'', PInt 7)]] (6, 7) = Some PNone
   \<and> create_da_summary_sheet
     [[(''designation'', PStr ''DA-1''), (''intensity'', PInt 9), (''flow_cfs'', PInt 5)],
      [(''designation'', PStr ''DA-2''), (''intensity'', PInt 7)]] (7, 13) = None"
  using da_summary_single_frequency
    [where i = 1 and c = 13 and r = 7 and da_data =
       "[[(''designation'', PStr ''DA-1''), (''intensity'', PInt 9), (''flow_cfs'', PInt 5)],
         [(''designation'', PStr ''DA-2''), (''intensity'', PInt 7)]]"]
  by (simp add: dict_get_def)

section \<open>The Inlets sheet\<close>

lemma inlet_row_columns: "distinct (map fst (inlet_row_values idx rcd q))"
  by (simp add: inlet_row_values_def Let_def)

lemma inlet_rows_before:
  "inlet_rows idx ws start rcds = Inr ws' \<Longrightarrow> r < start \<Longrightarrow> ws' (r, c) = ws (r, c)"
proof (induction rcds arbitrary: ws start)
  case Nil
  then show ?case by simp
next
  case (Cons rcd rcds)
  from Cons.prems(1) obtain q where q: "sum_q rcd = Inr q"
    and rest: "inlet_rows idx (write_cells ws start (inlet_row_values idx rcd q)) (Suc start) rcds = Inr ws'"
    by (auto simp: inlet_row_def split: sum.splits)
  from Cons.prems(2) have "r < Suc start" by simp
  with rest have "ws' (r, c) = write_cells ws start (inlet_row_values idx rcd q) (r, c)"
    by (rule Cons.IH)
  with Cons.prems(2) show ?case by (simp add: write_cells_other)
qed

lemma inlet_rows_after:
  "inlet_rows idx ws start rcds = Inr ws' \<Longrightarrow> start + length rcds \<le> r \<Longrightarrow> ws' (r, c) = ws (r, c)"
proof (induction rcds arbitrary: ws start)
  case Nil
  then show ?case by simp
next
  case (Cons rcd rcds)
  from Cons.prems(1) obtain q where q: "sum_q rcd = Inr q"
    and rest: "inlet_rows idx (write_cells ws start (inlet_row_values idx rcd q)) (Suc start) rcds = Inr ws'"
    by (auto simp: inlet_row_def split: sum.splits)
  from Cons.prems(2) have "Suc start + length rcds \<le> r" by simp
  with rest have "ws' (r, c) = write_cells ws start (inlet_row_values idx rcd q) (r, c)"
    by (rule Cons.IH)
  with Cons.prems(2) show ?case by (simp add: write_cells_other)
qed

lemma inlet_rows_row:
  "inlet_rows idx ws start rcds = Inr ws' \<Longrightarrow> i < length rcds \<Longrightarrow> ws (start + i, c) = None \<Longrightarrow>
   \<exists>q. sum_q (rcds ! i) = Inr q \<and> ws' (start + i, c) = map_of (inlet_row_values idx (rcds ! i) q) c"
proof (induction rcds arbitrary: ws start i)
  case Nil
  then show ?case by simp
next
  case (Cons rcd rcds)
  from Cons.prems(1) obtain q where q: "sum_q rcd = Inr q"
    and rest: "inlet_rows idx (write_cells ws start (inlet_row_values idx rcd q)) (Suc start) rcds = Inr ws'"
    by (auto simp: inlet_row_def split: sum.splits)
  show ?case
  proof (cases i)
    case 0
    from rest have "ws' (start, c) = write_cells ws start (inlet_row_values idx rcd q) (start, c)"
      by (rule inlet_rows_before) simp
    also have "\<dots> = map_of (inlet_row_values idx rcd q) c"
      using Cons.prems(3) 0 by (simp add: write_cells_fresh inlet_row_columns)
    finally show ?thesis using q by (simp add: 0)
  next
    case (Suc j)
    with Cons.prems have j: "j < length rcds" by simp
    have "write_cells ws start (inlet_row_values idx rcd q) (Suc start + j, c) = ws (Suc start + j, c)"
      by (simp add: write_cells_other)
    with Cons.prems(3) Suc
    have "write_cells ws start (inlet_row_values idx rcd q) (Suc start + j, c) = None" by simp
    with rest j have "\<exists>q. sum_q (rcds ! j) = Inr q
        \<and> ws' (Suc start + j, c) = map_of (inlet_row_values idx (rcds ! j) q) c"
      by (rule Cons.IH)
    then show ?thesis by (simp add: Suc)
  qed
qed

text \<open>The run ends without an error when the addition for column Q succeeds on every
  record.\<close>

lemma inlet_rows_returns:
  "\<forall>rcd \<in> set rcds. \<exists>q. sum_q rcd = Inr q \<Longrightarrow> \<exists>ws'. inlet_rows idx ws start rcds = Inr ws'"
proof (induction rcds arbitrary: ws start)
  case Nil
  show ?case by simp
next
  case (Cons rcd rcds)
  then obtain q where q: "sum_q rcd = Inr q" by auto
  from Cons.prems have "\<forall>rcd \<in> set rcds. \<exists>q. sum_q rcd = Inr q" by simp
  then have "\<exists>ws'. inlet_rows idx (write_cells ws start (inlet_row_values idx rcd q)) (Suc start) rcds = Inr ws'"
    by (rule Cons.IH)
  then show ?case by (simp add: inlet_row_def q)
qed

lemma create_inlet_sheet_returns:
  "\<forall>rcd \<in> set inlet_data. \<exists>q. sum_q rcd = Inr q \<Longrightarrow>
   \<exists>ws. create_inlet_sheet inlet_data da_data = Inr ws"
  unfolding create_inlet_sheet_def Let_def by (rule inlet_rows_returns)

text \<open>Row 5 + i of a finished sheet holds, in columns B to V, the values of record i.\<close>

lemma inlet_sheet_row:
  assumes "create_inlet_sheet inlet_data da_data = Inr ws" and "i < length inlet_data" and "2 \<le> c"
  shows "\<exists>q. sum_q (inlet_data ! i) = Inr q
      \<and> ws (5 + i, c) = map_of (inlet_row_values (build_da_by_outflow da_data) (inlet_data ! i) q) c"
proof -
  define ws0 where "ws0 = (if inlet_data \<noteq> [] then inlet_header((5, 1) \<mapsto> PStr ''PROPOSED'') else inlet_header)"
  from assms(1) have run: "inlet_rows (build_da_by_outflow da_data) ws0 5 inlet_data = Inr ws"
    by (simp add: create_inlet_sheet_def Let_def ws0_def)
  from assms(3) have "ws0 (5 + i, c) = None"
    by (simp add: ws0_def inlet_header_data)
  with run assms(2) show ?thesis by (rule inlet_rows_row)
qed

text \<open>Columns D, E and Q of row 5 + i hold the station and offset text, the inlet type
  and the sum of record i.\<close>

lemma inlet_sheet_derived_columns:
  assumes "create_inlet_sheet inlet_data da_data = Inr ws" and "i < length inlet_data"
  shows "ws (5 + i, 4) =
           Some (PStr (format_station_offset (dict_get (inlet_data ! i) ''station'')
                                             (dict_get (inlet_data ! i) ''offset'')))"
    and "ws (5 + i, 5) = Some (PStr (extract_inlet_type (dict_get (inlet_data ! i) ''description'')))"
    and "\<exists>q. sum_q (inlet_data ! i) = Inr q \<and> ws (5 + i, 17) = Some q"
proof -
  have row: "\<exists>q. sum_q (inlet_data ! i) = Inr q
      \<and> ws (5 + i, c) = map_of (inlet_row_values (build_da_by_outflow da_data) (inlet_data ! i) q) c"
    if "2 \<le> c" for c
    using assms that by (rule inlet_sheet_row)
  from row [of 4] show "ws (5 + i, 4) =
           Some (PStr (format_station_offset (dict_get (inlet_data ! i) ''station'')
                                             (dict_get (inlet_data ! i) ''offset'')))"
    by (auto simp: inlet_row_values_def Let_def)
  from row [of 5] show "ws (5 + i, 5) =
           Some (PStr (extract_inlet_type (dict_get (inlet_data ! i) ''description'')))"
    by (auto simp: inlet_row_values_def Let_def)
  from row [of 17] show "\<exists>q. sum_q (inlet_data ! i) = Inr q \<and> ws (5 + i, 17) = Some q"
    by (auto simp: inlet_row_values_def Let_def)
qed

lemma example_sheet:
  "\<exists>ws. create_inlet_sheet example_inlet_data (Some example_da_data) = Inr ws"
  by (rule create_inlet_sheet_returns)
     (simp add: example_inlet_data_def sum_q_def dict_get_def py_or_def)

lemma example_rows: "0 < length example_inlet_data" "1 < length example_inlet_data"
  by (simp_all add: example_inlet_data_def)

text \<open>
  C4 (link lookup and column fill). On a finished Inlets sheet, for record i: the lookup
  takes \<open>structure_no\<close> as it stands, so a number with leading or trailing whitespace
  finds nothing, every key of the index being trimmed; when the lookup finds a
  drainage-area record, columns H to L (8 to 12) of row 5 + i hold its designation, area,
  runoff coefficient, Tc and intensity; when it finds none, these five cells are blank.
\<close>

theorem inlet_link_columns:
  assumes "create_inlet_sheet inlet_data da_data = Inr ws" and "i < length inlet_data"
  shows "(\<forall>s. dict_get_default (inlet_data ! i) ''structure_no'' (PStr []) = PStr s \<and> strip s \<noteq> s \<longrightarrow>
            index_get (build_da_by_outflow da_data)
              (dict_get_default (inlet_data ! i) ''structure_no'' (PStr [])) = None)
       \<and> (case index_get (build_da_by_outflow da_data)
                 (dict_get_default (inlet_data ! i) ''structure_no'' (PStr [])) of
            None \<Rightarrow>
              ws (5 + i, 8) = Some PNone \<and> ws (5 + i, 9) = Some PNone
              \<and> ws (5 + i, 10) = Some PNone \<and> ws (5 + i, 11) = Some PNone
              \<and> ws (5 + i, 12) = Some PNone
          | Some da \<Rightarrow>
              ws (5 + i, 8) = Some (dict_get da ''designation'')
              \<and> ws (5 + i, 9) = Some (dict_get da ''area_acres'')
              \<and> ws (5 + i, 10) = Some (dict_get da ''runoff_coeff'')
              \<and> ws (5 + i, 11) = Some (dict_get da ''tc_min'')
              \<and> ws (5 + i, 12) = Some (dict_get da ''intensity''))"
proof -
  define idx where "idx = build_da_by_outflow da_data"
  define struct_no where "struct_no = dict_get_default (inlet_data ! i) ''structure_no'' (PStr [])"
  have miss: "index_get idx struct_no = None" if "struct_no = PStr s" and "strip s \<noteq> s" for s
  proof (cases "idx s")
    case None
    with that show ?thesis by (simp add: index_get_def)
  next
    case (Some da)
    then have "strip s = s" unfolding idx_def by (auto dest: index_keys_stripped)
    with that show ?thesis by simp
  qed
  have cell: "ws (5 + i, c) = Some (linked (index_get idx struct_no) k)"
    if "(c, k) \<in> {(8, ''designation''), (9, ''area_acres''), (10, ''runoff_coeff''),
                   (11, ''tc_min''), (12, ''intensity'')}" for c k
  proof -
    from that have "2 \<le> c" by auto
    with assms obtain q where
      "ws (5 + i, c) = map_of (inlet_row_values idx (inlet_data ! i) q) c"
      unfolding idx_def using inlet_sheet_row by blast
    with that show ?thesis
      by (auto simp: inlet_row_values_def Let_def struct_no_def)
  qed
  have cols: "case index_get idx struct_no of
            None \<Rightarrow>
              ws (5 + i, 8) = Some PNone \<and> ws (5 + i, 9) = Some PNone
              \<and> ws (5 + i, 10) = Some PNone \<and> ws (5 + i, 11) = Some PNone
              \<and> ws (5 + i, 12) = Some PNone
          | Some da \<Rightarrow>
              ws (5 + i, 8) = Some (dict_get da ''designation'')
              \<and> ws (5 + i, 9) = Some (dict_get da ''area_acres'')
              \<and> ws (5 + i, 10) = Some (dict_get da ''runoff_coeff'')
              \<and> ws (5 + i, 11) = Some (dict_get da ''tc_min'')
              \<and> ws (5 + i, 12) = Some (dict_get da ''intensity'')"
  proof (cases "index_get idx struct_no")
    case None
    then show ?thesis by (simp add: cell linked_def)
  next
    case (Some da)
    then have "da \<noteq> []" unfolding idx_def
      by (auto simp: index_get_def split: pyval.splits dest: index_keys_stripped)
    with Some show ?thesis by (simp add: cell linked_def)
  qed
  from miss cols show ?thesis unfolding idx_def struct_no_def by blast
qed

theorem inlet_link_columns_witness:
  "\<exists>ws. create_inlet_sheet example_inlet_data (Some example_da_data) = Inr ws
      \<and> ws (5, 8) = Some (PStr ''DA-2'') \<and> ws (5, 9) = Some (PInt 19)
      \<and> ws (5, 10) = Some (PInt 25) \<and> ws (5, 11) = Some (PInt 10)
      \<and> ws (5, 12) = Some (PInt 9)
      \<and> ws (6, 8) = Some PNone \<and> ws (6, 9) = Some PNone \<and> ws (6, 10) = Some PNone
      \<and> ws (6, 11) = Some PNone \<and> ws (6, 12) = Some PNone"
proof -
  from example_sheet obtain ws
    where ws: "create_inlet_sheet example_inlet_data (Some example_da_data) = Inr ws" ..
  note len = example_rows
  have k0: "index_get (build_da_by_outflow (Some example_da_data))
              (dict_get_default (example_inlet_data ! 0) ''structure_no'' (PStr []))
            = Some (hd example_da_data)"
    by code_simp
  have k1: "index_get (build_da_by_outflow (Some example_da_data))
              (dict_get_default (example_inlet_data ! 1) ''structure_no'' (PStr []))
            = None"
    by code_simp
  have r0: "ws (5, 8) = Some (PStr ''DA-2'') \<and> ws (5, 9) = Some (PInt 19)
      \<and> ws (5, 10) = Some (PInt 25) \<and> ws (5, 11) = Some (PInt 10)
      \<and> ws (5, 12) = Some (PInt 9)"
    using inlet_link_columns [OF ws len(1)] unfolding k0
    by (simp add: example_da_data_def dict_get_def)
  have r1: "ws (6, 8) = Some PNone \<and> ws (6, 9) = Some PNone \<and> ws (6, 10) = Some PNone
      \<and> ws (6, 11) = Some PNone \<and> ws (6, 12) = Some PNone"
    using inlet_link_columns [OF ws len(2)] unfolding k1
    by simp
  from ws r0 r1 show ?thesis by blast
qed

section \<open>Derived columns of the inlet sheet\<close>

text \<open>
  C2 (inlet type), as amended. The displayed inlet type is the text after the last
  backslash of \<open>description\<close> (the whole text when it has no backslash), trimmed; that
  last segment may be empty. When the record has no \<open>description\<close> the value is the
  empty text. The function is total: nothing is raised. On a finished Inlets sheet the
  value stands in column E (5) of the record's row.
\<close>

theorem inlet_type_last_segment:
  "(map_of record ''description'' = None \<longrightarrow>
      extract_inlet_type (dict_get record ''description'') = [])
   \<and> (dict_get record ''description'' = PStr (pre @ backslash # t) \<and> backslash \<notin> set t \<longrightarrow>
      extract_inlet_type (dict_get record ''description'') = strip t)
   \<and> (dict_get record ''description'' = PStr s \<and> backslash \<notin> set s \<longrightarrow>
      extract_inlet_type (dict_get record ''description'') = strip s)
   \<and> (create_inlet_sheet inlet_data da_data = Inr ws \<and> i < length inlet_data \<longrightarrow>
      ws (5 + i, 5) = Some (PStr (extract_inlet_type (dict_get (inlet_data ! i) ''description''))))"
proof (intro conjI impI)
  assume "create_inlet_sheet inlet_data da_data = Inr ws \<and> i < length inlet_data"
  then show "ws (5 + i, 5) =
      Some (PStr (extract_inlet_type (dict_get (inlet_data ! i) ''description'')))"
    using inlet_sheet_derived_columns(2) by blast
next
  assume "map_of record ''description'' = None"
  then show "extract_inlet_type (dict_get record ''description'') = []"
    by (simp add: dict_get_def extract_inlet_type_def)
next
  assume a: "dict_get record ''description'' = PStr (pre @ backslash # t) \<and> backslash \<notin> set t"
  then show "extract_inlet_type (dict_get record ''description'') = strip t"
    by (simp add: extract_inlet_type_def last_split_on)
next
  assume a: "dict_get record ''description'' = PStr s \<and> backslash \<notin> set s"
  then show "extract_inlet_type (dict_get record ''description'') = strip s"
    by (cases "s = []") (simp_all add: extract_inlet_type_def split_on_no_sep strip_def)
qed

theorem inlet_type_last_segment_witness:
  "extract_inlet_type (dict_get [(''structure_no'', PStr ''CI-1'')] ''description'') = []
   \<and> extract_inlet_type
       (dict_get [(''description'', PStr (''Inlets'' @ backslash # ''CI Des 2 STD ''))] ''description'')
     = ''CI Des 2 STD''
   \<and> extract_inlet_type (dict_get [(''description'', PStr '' Grate '')] ''description'') = ''Grate''
   \<and> (\<exists>ws. create_inlet_sheet example_inlet_data (Some example_da_data) = Inr ws
          \<and> ws (5, 5) = Some (PStr ''CI Des 2 STD'') \<and> ws (6, 5) = Some (PStr []))"
proof -
  from example_sheet obtain ws
    where ws: "create_inlet_sheet example_inlet_data (Some example_da_data) = Inr ws" ..
  have "ws (5 + 0, 5) =
      Some (PStr (extract_inlet_type (dict_get (example_inlet_data ! 0) ''description'')))"
    using inlet_type_last_segment [where inlet_data = example_inlet_data
        and da_data = "Some example_da_data" and ws = ws and i = 0] ws example_rows(1)
    by blast
  also have "extract_inlet_type (dict_get (example_inlet_data ! 0) ''description'') = ''CI Des 2 STD''"
    by code_simp
  finally have e0: "ws (5, 5) = Some (PStr ''CI Des 2 STD'')" by simp
  have "ws (5 + 1, 5) =
      Some (PStr (extract_inlet_type (dict_get (example_inlet_data ! 1) ''description'')))"
    using inlet_type_last_segment [where inlet_data = example_inlet_data
        and da_data = "Some example_da_data" and ws = ws and i = 1] ws example_rows(2)
    by blast
  also have "extract_inlet_type (dict_get (example_inlet_data ! 1) ''description'') = []"
    by code_simp
  finally have e1: "ws (6, 5) = Some (PStr [])" by simp
  have a: "extract_inlet_type (dict_get [(''structure_no'', PStr ''CI-1'')] ''description'') = []"
    using inlet_type_last_segment [of "[(''structure_no'', PStr ''CI-1'')]"] by simp
  have "backslash \<notin> set ''CI Des 2 STD ''" by (simp add: backslash_def)
  then have "extract_inlet_type
       (dict_get [(''description'', PStr (''Inlets'' @ backslash # ''CI Des 2 STD ''))] ''description'')
     = strip ''CI Des 2 STD ''"
    using inlet_type_last_segment
      [of "[(''description'', PStr (''Inlets'' @ backslash # ''CI Des 2 STD ''))]"
          "''Inlets''" "''CI Des 2 STD ''"]
    by (simp add: dict_get_def)
  then have b: "extract_inlet_type
       (dict_get [(''description'', PStr (''Inlets'' @ backslash # ''CI Des 2 STD ''))] ''description'')
     = ''CI Des 2 STD''"
    by (simp add: strip_def py_isspace_def whitespace_def)
  have "backslash \<notin> set '' Grate ''" by (simp add: backslash_def)
  then have "extract_inlet_type (dict_get [(''description'', PStr '' Grate '')] ''description'')
     = strip '' Grate ''"
    using inlet_type_last_segment [of "[(''description'', PStr '' Grate '')]" _ _ "'' Grate ''"]
    by (simp add: dict_get_def)
  then have c: "extract_inlet_type (dict_get [(''description'', PStr '' Grate '')] ''description'')
     = ''Grate''"
    by (simp add: strip_def py_isspace_def whitespace_def)
  from a b c ws e0 e1 show ?thesis by blast
qed

text \<open>The claim as stated fails on a path that ends with a backslash: the last segment
  is empty and the code shows the empty text, where the last non-empty segment is
  "CI Des 2 STD".\<close>

theorem inlet_type_trailing_separator_counterexample:
  "extract_inlet_type (dict_get [(''description'', PStr (''CI Des 2 STD'' @ [backslash]))] ''description'')
     = []
   \<and> strip (spec_last_nonempty_segment (''CI Des 2 STD'' @ [backslash])) = ''CI Des 2 STD''"
  by code_simp

text \<open>The sum on operands that are numbers or absent.\<close>

lemma sum_q_numbers:
  assumes "number_or_absent (dict_get record ''flow_captured'')"
      and "number_or_absent (dict_get record ''flow_total_bypassed'')"
  shows "sum_q record =
           Inr (if absent_as_zero (dict_get record ''flow_captured'') = 0
                 \<and> absent_as_zero (dict_get record ''flow_total_bypassed'') = 0
                then PNone
                else PInt (absent_as_zero (dict_get record ''flow_captured'')
                         + absent_as_zero (dict_get record ''flow_total_bypassed'')))"
proof -
  obtain c b where c: "dict_get record ''flow_captured'' = c"
    and b: "dict_get record ''flow_total_bypassed'' = b" by simp
  from assms show ?thesis unfolding sum_q_def c b
    by (cases c; cases b) (simp_all add: py_or_def)
qed

text \<open>
  C5 (sum Q). For flow operands that are numbers or absent, column Q is the sum of
  \<open>flow_captured\<close> and \<open>flow_total_bypassed\<close>, an absent operand counting as 0,
  unless both are absent or 0, and then it is blank. On a finished Inlets sheet the value
  of the sum stands in column Q (17) of the record's row.
\<close>

theorem sum_q_derived:
  assumes "number_or_absent (dict_get record ''flow_captured'')"
      and "number_or_absent (dict_get record ''flow_total_bypassed'')"
  shows "sum_q record =
           Inr (if absent_as_zero (dict_get record ''flow_captured'') = 0
                 \<and> absent_as_zero (dict_get record ''flow_total_bypassed'') = 0
                then PNone
                else PInt (absent_as_zero (dict_get record ''flow_captured'')
                         + absent_as_zero (dict_get record ''flow_total_bypassed'')))
       \<and> (create_inlet_sheet inlet_data da_data = Inr ws \<and> i < length inlet_data
            \<and> inlet_data ! i = record \<longrightarrow>
          ws (5 + i, 17) =
            Some (if absent_as_zero (dict_get record ''flow_captured'') = 0
                   \<and> absent_as_zero (dict_get record ''flow_total_bypassed'') = 0
                  then PNone
                  else PInt (absent_as_zero (dict_get record ''flow_captured'')
                           + absent_as_zero (dict_get record ''flow_total_bypassed''))))"
proof (intro conjI impI)
  show "sum_q record =
           Inr (if absent_as_zero (dict_get record ''flow_captured'') = 0
                 \<and> absent_as_zero (dict_get record ''flow_total_bypassed'') = 0
                then PNone
                else PInt (absent_as_zero (dict_get record ''flow_captured'')
                         + absent_as_zero (dict_get record ''flow_total_bypassed'')))"
    using assms by (rule sum_q_numbers)
next
  assume a: "create_inlet_sheet inlet_data da_data = Inr ws \<and> i < length inlet_data
            \<and> inlet_data ! i = record"
  then obtain q where "sum_q record = Inr q" and "ws (5 + i, 17) = Some q"
    using inlet_sheet_derived_columns(3) by blast
  then show "ws (5 + i, 17) =
            Some (if absent_as_zero (dict_get record ''flow_captured'') = 0
                   \<and> absent_as_zero (dict_get record ''flow_total_bypassed'') = 0
                  then PNone
                  else PInt (absent_as_zero (dict_get record ''flow_captured'')
                           + absent_as_zero (dict_get record ''flow_total_bypassed'')))"
    using sum_q_numbers [OF assms] by simp
qed

theorem sum_q_derived_witness:
  "sum_q [(''structure_no'', PStr ''CI-1''), (''flow_captured'', PInt 3)] = Inr (PInt 3)
   \<and> sum_q [(''structure_no'', PStr ''CI-1'')] = Inr PNone
   \<and> sum_q [(''flow_captured'', PInt 0), (''flow_total_bypassed'', PInt 0)] = Inr PNone
   \<and> sum_q [(''flow_captured'', PInt 4), (''flow_total_bypassed'', PInt 1)] = Inr (PInt 5)
   \<and> (\<exists>ws. create_inlet_sheet example_inlet_data (Some example_da_data) = Inr ws
          \<and> ws (6, 17) = Some (PInt 2))"
proof -
  from example_sheet obtain ws
    where ws: "create_inlet_sheet example_inlet_data (Some example_da_data) = Inr ws" ..
  have n1: "number_or_absent (dict_get (example_inlet_data ! 1) ''flow_captured'')"
    and n2: "number_or_absent (dict_get (example_inlet_data ! 1) ''flow_total_bypassed'')"
    by (simp_all add: example_inlet_data_def dict_get_def)
  have "ws (5 + 1, 17) =
      Some (if absent_as_zero (dict_get (example_inlet_data ! 1) ''flow_captured'') = 0
             \<and> absent_as_zero (dict_get (example_inlet_data ! 1) ''flow_total_bypassed'') = 0
            then PNone
            else PInt (absent_as_zero (dict_get (example_inlet_data ! 1) ''flow_captured'')
                     + absent_as_zero (dict_get (example_inlet_data ! 1) ''flow_total_bypassed'')))"
    using sum_q_derived [OF n1 n2, where inlet_data = example_inlet_data
        and da_data = "Some example_da_data" and ws = ws and i = 1] ws example_rows(2)
    by blast
  then have e: "ws (6, 17) = Some (PInt 2)"
    by (simp add: example_inlet_data_def dict_get_def)
  have a: "sum_q [(''structure_no'', PStr ''CI-1''), (''flow_captured'', PInt 3)] = Inr (PInt 3)"
    using sum_q_derived [of "[(''structure_no'', PStr ''CI-1''), (''flow_captured'', PInt 3)]"]
    by (simp add: dict_get_def)
  have b: "sum_q [(''structure_no'', PStr ''CI-1'')] = Inr PNone"
    using sum_q_derived [of "[(''structure_no'', PStr ''CI-1'')]"]
    by (simp add: dict_get_def)
  have c: "sum_q [(''flow_captured'', PInt 0), (''flow_total_bypassed'', PInt 0)] = Inr PNone"
    using sum_q_derived [of "[(''flow_captured'', PInt 0), (''flow_total_bypassed'', PInt 0)]"]
    by (simp add: dict_get_def)
  have d: "sum_q [(''flow_captured'', PInt 4), (''flow_total_bypassed'', PInt 1)] = Inr (PInt 5)"
    using sum_q_derived [of "[(''flow_captured'', PInt 4), (''flow_total_bypassed'', PInt 1)]"]
    by (simp add: dict_get_def)
  from a b c d ws e show ?thesis by blast
qed

text \<open>A text in a flow column is outside the claim: the addition raises.\<close>

lemma sum_q_text_operand:
  "sum_q [(''flow_captured'', PStr ''n/a'')] = Inl TypeError"
  by (simp add: sum_q_def dict_get_def py_or_def)

text \<open>
  C7 (offset suppression), as amended. The display text carries the offset part
  "Offset: OFFSET" exactly when \<open>offset\<close> is present and not equal to 0; the part follows
  the station text after ", " when \<open>station\<close> is present and stands alone when it is
  absent. Without the offset part the text is the station text alone, and the empty text
  when the station is absent too. On a finished Inlets sheet the text stands in column D
  (4) of the record's row.
\<close>

theorem station_offset_display:
  "format_station_offset station offset =
     (if offset \<noteq> PNone \<and> ne_zero offset
      then (if station \<noteq> PNone then py_str station @ '', '' else []) @ ''Offset: '' @ py_str offset
      else (if station \<noteq> PNone then py_str station else []))
   \<and> (create_inlet_sheet inlet_data da_data = Inr ws \<and> i < length inlet_data \<longrightarrow>
        ws (5 + i, 4) =
          Some (PStr (format_station_offset (dict_get (inlet_data ! i) ''station'')
                                            (dict_get (inlet_data ! i) ''offset''))))"
proof (intro conjI impI)
  show "format_station_offset station offset =
     (if offset \<noteq> PNone \<and> ne_zero offset
      then (if station \<noteq> PNone then py_str station @ '', '' else []) @ ''Offset: '' @ py_str offset
      else (if station \<noteq> PNone then py_str station else []))"
    by (simp add: format_station_offset_def)
next
  assume "create_inlet_sheet inlet_data da_data = Inr ws \<and> i < length inlet_data"
  then show "ws (5 + i, 4) =
          Some (PStr (format_station_offset (dict_get (inlet_data ! i) ''station'')
                                            (dict_get (inlet_data ! i) ''offset'')))"
    using inlet_sheet_derived_columns(1) by blast
qed

theorem station_offset_display_witness:
  "\<exists>ws. create_inlet_sheet example_inlet_data (Some example_da_data) = Inr ws
      \<and> ws (5, 4) = Some (PStr ''10+50'') \<and> ws (6, 4) = Some (PStr ''Offset: 5'')"
proof -
  from example_sheet obtain ws
    where ws: "create_inlet_sheet example_inlet_data (Some example_da_data) = Inr ws" ..
  have "ws (5 + 0, 4) =
      Some (PStr (format_station_offset (dict_get (example_inlet_data ! 0) ''station'')
                                        (dict_get (example_inlet_data ! 0) ''offset'')))"
    using station_offset_display [where inlet_data = example_inlet_data
        and da_data = "Some example_da_data" and ws = ws and i = 0] ws example_rows(1)
    by blast
  also have "format_station_offset (dict_get (example_inlet_data ! 0) ''station'')
                                   (dict_get (example_inlet_data ! 0) ''offset'') = ''10+50''"
    by code_simp
  finally have e0: "ws (5, 4) = Some (PStr ''10+50'')" by simp
  have "ws (5 + 1, 4) =
      Some (PStr (format_station_offset (dict_get (example_inlet_data ! 1) ''station'')
                                        (dict_get (example_inlet_data ! 1) ''offset'')))"
    using station_offset_display [where inlet_data = example_inlet_data
        and da_data = "Some example_da_data" and ws = ws and i = 1] ws example_rows(2)
    by blast
  also have "format_station_offset (dict_get (example_inlet_data ! 1) ''station'')
                                   (dict_get (example_inlet_data ! 1) ''offset'') = ''Offset: 5''"
    by code_simp
  finally have e1: "ws (6, 4) = Some (PStr ''Offset: 5'')" by simp
  from ws e0 e1 show ?thesis by blast
qed

text \<open>The claim as stated fails when the station is absent: with offset 5 the text is
  "Offset: 5", which does not hold ", Offset: 5".\<close>

theorem station_offset_display_counterexample:
  "PInt 5 \<noteq> PNone \<and> ne_zero (PInt 5)
   \<and> format_station_offset PNone (PInt 5) = ''Offset: 5''
   \<and> \<not> contains '', Offset: 5'' (format_station_offset PNone (PInt 5))"
  by (simp add: format_station_offset_def str_int_def digits.simps digit_char_def)

lemma station_offset_examples:
  "format_station_offset (PStr ''10+50'') (PInt 0) = ''10+50''
   \<and> format_station_offset (PStr ''10+50'') (PInt 5) = ''10+50, Offset: 5''
   \<and> format_station_offset (PStr ''10+50'') PNone = ''10+50''
   \<and> format_station_offset PNone PNone = []
   \<and> format_station_offset PNone (PInt 0) = []"
  by (simp add: format_station_offset_def str_int_def digits.simps digit_char_def)

end
